theory Spec2Isabelle
  imports Main "HOL-Library.Word"
begin

section \<open>Data model of the store (Store/main.py)\<close>

text \<open>
  The handlers only pass floating-point values and date-times on, they never compute
  with them. A float is kept as its binary64 bit pattern (1.0 is \<open>0x3FF0000000000000\<close>).
  A date-time is the reading of its clock, kept as the microseconds from
  1970-01-01T00:00:00 to that reading (the reading and the count determine each other),
  and its offset from UTC in microseconds, \<open>None\<close> when it carries no offset.
\<close>

type_synonym float = "64 word"

record datetime =
  wall_clock :: int
  utcoffset :: "int option"

record AccelerometerData =
  acc_x :: float
  acc_y :: float
  acc_z :: float

record GpsData =
  latitude :: float
  longitude :: float

record AgentData =
  accelerometer :: AccelerometerData
  gps :: GpsData
  timestamp :: datetime

record ProcessedAgentData =
  road_state :: string
  agent_data :: AgentData

text \<open>A row of the table \<open>processed_agent_data\<close>, which is also the response model.\<close>

record ProcessedAgentDataInDB =
  db_id :: int
  db_road_state :: string
  db_x :: float
  db_y :: float
  db_z :: float
  db_latitude :: float
  db_longitude :: float
  db_timestamp :: datetime

section \<open>Errors and responses\<close>

datatype exn =
  SQLAlchemyError
  | IntegrityError
  | TypeError
  | WebSocketSendError
  | RuntimeError
  | KeyError
  | ResponseValidationError
  | ConnectionError

text \<open>
  What the framework answers when a request does not end in a value: a body that fails
  validation (422), an \<open>HTTPException\<close> raised by a handler (its own status code), and
  any other exception that leaves a handler (500).
\<close>

datatype failure =
  RequestValidationError string
  | HTTPException nat string
  | InternalServerError exn

fun failure_status :: "failure \<Rightarrow> nat" where
  "failure_status (RequestValidationError _) = 422"
| "failure_status (HTTPException c _) = c"
| "failure_status (InternalServerError _) = 500"

section \<open>The relational store\<close>

text \<open>
  The table is the list of its committed rows; \<open>id_seq\<close> is the sequence behind the
  integer primary key \<open>id\<close>. A statement runs in a session on a working copy of the
  table, and \<open>commit\<close> installs the copy; a session that ends in an exception installs
  nothing, but the sequence keeps the values it handed out.

  The environment decides whether a call into the database raises: \<open>db_fault\<close> is the
  index, counted from 0 within one request, of the call (\<open>execute\<close> or \<open>commit\<close>) that
  raises, \<open>None\<close> when none does.
\<close>

type_synonym table = "ProcessedAgentDataInDB list"

record database =
  processed_agent_data :: table
  id_seq :: int

type_synonym db_fault = "nat option"

definition ids :: "table \<Rightarrow> int set" where
  "ids t = db_id ` set t"

text \<open>\<open>select(processed_agent_data).where(id == i)\<close>, then \<open>.first()\<close>.\<close>

definition select_first :: "int \<Rightarrow> table \<Rightarrow> ProcessedAgentDataInDB option" where
  "select_first i t = find (\<lambda>r. db_id r = i) t"

text \<open>\<open>delete(processed_agent_data).where(id == i)\<close>.\<close>

definition delete_where :: "int \<Rightarrow> table \<Rightarrow> table" where
  "delete_where i t = filter (\<lambda>r. db_id r \<noteq> i) t"

text \<open>
  What the columns keep of a value bound to a statement. A \<open>Float\<close> column keeps a float
  as it is, except that negative zero is stored as zero: the driver writes the value as a
  numeric literal, and the literal \<open>-0.0\<close> is the number zero. A \<open>DateTime\<close> column has no
  time zone: a date-time with an offset is stored as the clock reading of the same
  instant in the time zone of the database session, which is UTC, and every date-time
  comes back without offset.
\<close>

definition negative_zero :: float where
  "negative_zero = 0x8000000000000000"

definition store_float :: "float \<Rightarrow> float" where
  "store_float f = (if f = negative_zero then 0 else f)"

definition store_datetime :: "datetime \<Rightarrow> datetime" where
  "store_datetime t =
     \<lparr>wall_clock = (case utcoffset t of None \<Rightarrow> wall_clock t | Some off \<Rightarrow> wall_clock t - off),
      utcoffset = None\<rparr>"

text \<open>\<open>update(processed_agent_data).where(id == i).values(...)\<close>.\<close>

definition update_where :: "int \<Rightarrow> ProcessedAgentData \<Rightarrow> table \<Rightarrow> table" where
  "update_where i d t =
     map (\<lambda>r. if db_id r = i
               then r\<lparr>db_road_state := road_state d,
                      db_x := store_float (acc_x (accelerometer (agent_data d))),
                      db_y := store_float (acc_y (accelerometer (agent_data d))),
                      db_z := store_float (acc_z (accelerometer (agent_data d))),
                      db_latitude := store_float (latitude (gps (agent_data d))),
                      db_longitude := store_float (longitude (gps (agent_data d))),
                      db_timestamp := store_datetime (timestamp (agent_data d))\<rparr>
               else r) t"

text \<open>The row an insert of \<open>d\<close> writes when the sequence hands out \<open>i\<close>.\<close>

definition row_of :: "int \<Rightarrow> ProcessedAgentData \<Rightarrow> ProcessedAgentDataInDB" where
  "row_of i d =
     \<lparr>db_id = i,
      db_road_state = road_state d,
      db_x = store_float (acc_x (accelerometer (agent_data d))),
      db_y = store_float (acc_y (accelerometer (agent_data d))),
      db_z = store_float (acc_z (accelerometer (agent_data d))),
      db_latitude = store_float (latitude (gps (agent_data d))),
      db_longitude = store_float (longitude (gps (agent_data d))),
      db_timestamp = store_datetime (timestamp (agent_data d))\<rparr>"

text \<open>
  \<open>processed_agent_data.insert().values(...)\<close>: the identifier comes from the sequence,
  and the primary key refuses a row whose identifier is already in the table.
\<close>

definition execute_insert :: "ProcessedAgentData \<Rightarrow> database \<Rightarrow> exn option \<times> database" where
  "execute_insert d s =
     (let i = id_seq s; s' = s\<lparr>id_seq := i + 1\<rparr>
      in if i \<in> ids (processed_agent_data s) then (Some IntegrityError, s')
         else (None, s'\<lparr>processed_agent_data := processed_agent_data s @ [row_of i d]\<rparr>))"

text \<open>
  The rows a batch becomes when the sequence stands at \<open>i\<close>, and the state of a store
  that only this service has written to: identifiers are unique and below the sequence.
\<close>

fun new_rows :: "int \<Rightarrow> ProcessedAgentData list \<Rightarrow> table" where
  "new_rows i [] = []"
| "new_rows i (d # ds) = row_of i d # new_rows (i + 1) ds"

definition wf_db :: "database \<Rightarrow> bool" where
  "wf_db db = (distinct (map db_id (processed_agent_data db))
             \<and> (\<forall>r \<in> set (processed_agent_data db). db_id r < id_seq db))"

section \<open>Read, list, update and delete\<close>

definition not_found :: failure where
  "not_found = HTTPException 404 ''Requested unit not found''"

definition read_processed_agent_data ::
  "db_fault \<Rightarrow> int \<Rightarrow> database \<Rightarrow> failure + ProcessedAgentDataInDB" where
  "read_processed_agent_data fault i db =
     (if fault = Some 0 then Inl (InternalServerError SQLAlchemyError)
      else case select_first i (processed_agent_data db) of
             None \<Rightarrow> Inl not_found
           | Some requested_unit \<Rightarrow> Inr requested_unit)"

definition delete_processed_agent_data ::
  "db_fault \<Rightarrow> int \<Rightarrow> database \<Rightarrow> (failure + ProcessedAgentDataInDB) \<times> database" where
  "delete_processed_agent_data fault i db =
     (if fault = Some 0 then (Inl (InternalServerError SQLAlchemyError), db)
      else case select_first i (processed_agent_data db) of
             None \<Rightarrow> (Inl not_found, db)
           | Some requested_unit \<Rightarrow>
               if fault = Some 1 \<or> fault = Some 2
               then (Inl (InternalServerError SQLAlchemyError), db)
               else (Inr requested_unit,
                     db\<lparr>processed_agent_data := delete_where i (processed_agent_data db)\<rparr>))"

text \<open>
  \<open>Session.execute\<close> of the unfiltered select returns a result object holding the rows,
  or raises; it has no way to return \<open>None\<close>.
\<close>

definition execute_select_all :: "table \<Rightarrow> table option" where
  "execute_select_all t = Some t"

definition list_processed_agent_data :: "db_fault \<Rightarrow> database \<Rightarrow> failure + table" where
  "list_processed_agent_data fault db =
     (if fault = Some 0 then Inl (InternalServerError SQLAlchemyError)
      else case execute_select_all (processed_agent_data db) of
             None \<Rightarrow> Inl (HTTPException 404 ''Requested units not found'')
           | Some requested_units \<Rightarrow> Inr requested_units)"

text \<open>
  Update: select (call 0), update (call 1), commit (call 2), select again (call 3). The
  last select runs after the commit, so when it raises the new values are stored.
\<close>

definition update_processed_agent_data ::
  "db_fault \<Rightarrow> int \<Rightarrow> ProcessedAgentData \<Rightarrow> database
     \<Rightarrow> (failure + ProcessedAgentDataInDB) \<times> database" where
  "update_processed_agent_data fault i d db =
     (if fault = Some 0 then (Inl (InternalServerError SQLAlchemyError), db)
      else case select_first i (processed_agent_data db) of
             None \<Rightarrow> (Inl not_found, db)
           | Some _ \<Rightarrow>
               if fault = Some 1 \<or> fault = Some 2
               then (Inl (InternalServerError SQLAlchemyError), db)
               else
                 (let db' = db\<lparr>processed_agent_data := update_where i d (processed_agent_data db)\<rparr>
                  in if fault = Some 3 then (Inl (InternalServerError SQLAlchemyError), db')
                     else case select_first i (processed_agent_data db') of
                            None \<Rightarrow> (Inl (InternalServerError ResponseValidationError), db')
                          | Some requested_unit \<Rightarrow> (Inr requested_unit, db')))"

section \<open>Subscribers\<close>

text \<open>
  A websocket is known by its identity. \<open>subscriptions\<close> is a Python set: the list holds
  its members once each, in the order in which a \<open>for\<close> loop meets them. \<open>set.add\<close> of a
  member changes nothing, \<open>set.remove\<close> of a non-member raises \<open>KeyError\<close>. Where a new
  member lands in the iteration order is not fixed by the language; the list puts it last.
\<close>

type_synonym websocket = nat

definition subscriptions_add :: "websocket \<Rightarrow> websocket list \<Rightarrow> websocket list" where
  "subscriptions_add w subs = (if w \<in> set subs then subs else subs @ [w])"

definition subscriptions_remove :: "websocket \<Rightarrow> websocket list \<Rightarrow> exn + websocket list" where
  "subscriptions_remove w subs =
     (if w \<in> set subs then Inr (removeAll w subs) else Inl KeyError)"

text \<open>
  \<open>websocket_endpoint\<close> is a coroutine: it runs up to its next \<open>await\<close>, and other flows
  run in between. Its steps that touch the registry are the return of \<open>accept\<close>, after
  which it adds its websocket, and what \<open>receive_text\<close> gives: a text (the loop goes
  on), \<open>WebSocketDisconnect\<close> (the handler removes the websocket) or another exception
  (which leaves the endpoint with the websocket still registered).
\<close>

datatype received = Text string | Disconnect | ReceiveError

datatype event = Accepted websocket | Received websocket received

fun endpoint_step :: "event \<Rightarrow> websocket list \<Rightarrow> exn + websocket list" where
  "endpoint_step (Accepted w) subs = Inr (subscriptions_add w subs)"
| "endpoint_step (Received w (Text _)) subs = Inr subs"
| "endpoint_step (Received w Disconnect) subs = subscriptions_remove w subs"
| "endpoint_step (Received w ReceiveError) subs = Inr subs"

text \<open>The steps of all endpoints in the order the event loop runs them; the first exception ends the run.\<close>

fun run_endpoints :: "event list \<Rightarrow> websocket list \<Rightarrow> exn + websocket list" where
  "run_endpoints [] subs = Inr subs"
| "run_endpoints (e # es) subs =
     (case endpoint_step e subs of
        Inl x \<Rightarrow> Inl x
      | Inr subs' \<Rightarrow> run_endpoints es subs')"

text \<open>
  The events of a run are those of subscriber lifetimes when every websocket is accepted
  once, receives only while it is open, and is closed by its first disconnect or error.
  \<open>opn\<close> holds the open websockets, \<open>cls\<close> the closed ones.
\<close>

fun lifetimes :: "websocket list \<Rightarrow> websocket list \<Rightarrow> event list \<Rightarrow> bool" where
  "lifetimes opn cls [] = True"
| "lifetimes opn cls (Accepted w # es) =
     (w \<notin> set opn \<and> w \<notin> set cls \<and> lifetimes (w # opn) cls es)"
| "lifetimes opn cls (Received w (Text _) # es) = (w \<in> set opn \<and> lifetimes opn cls es)"
| "lifetimes opn cls (Received w Disconnect # es) =
     (w \<in> set opn \<and> lifetimes (removeAll w opn) (w # cls) es)"
| "lifetimes opn cls (Received w ReceiveError # es) =
     (w \<in> set opn \<and> lifetimes (removeAll w opn) (w # cls) es)"

section \<open>Broadcast and create\<close>

text \<open>
  \<open>send_data_to_subscribers\<close> iterates the set \<open>subscriptions\<close> itself, and every
  \<open>send_json\<close> is an \<open>await\<close>: while the loop waits in a send, the event loop runs steps
  of the endpoints. \<open>during\<close> lists them: its first element holds the steps that run
  during the first send, and so on; a send beyond the list runs undisturbed. A step that
  raises ends its own endpoint and leaves the registry as it was.

  The iterator keeps its place in the set and the size the set had when the loop began.
  \<open>rest\<close> holds the members still ahead of it: a removal takes the websocket out of the
  set and out of \<open>rest\<close>, a new member lands last and so is ahead. Each step of the
  iterator first compares the size of the set with the size it remembers and raises
  \<open>RuntimeError\<close> when they differ; a change of members that leaves the size alone goes
  unnoticed.
\<close>

fun step_during_send ::
  "event \<Rightarrow> websocket list \<times> websocket list \<Rightarrow> websocket list \<times> websocket list" where
  "step_during_send (Accepted w) (subs, rest) =
     (if w \<in> set subs then (subs, rest) else (subs @ [w], rest @ [w]))"
| "step_during_send (Received w (Text _)) (subs, rest) = (subs, rest)"
| "step_during_send (Received w Disconnect) (subs, rest) =
     (if w \<in> set subs then (removeAll w subs, removeAll w rest) else (subs, rest))"
| "step_during_send (Received w ReceiveError) (subs, rest) = (subs, rest)"

fun steps_during_send ::
  "event list \<Rightarrow> websocket list \<times> websocket list \<Rightarrow> websocket list \<times> websocket list" where
  "steps_during_send [] st = st"
| "steps_during_send (e # es) st = steps_during_send es (step_during_send e st)"

text \<open>
  \<open>dumps\<close> stands for \<open>json.dumps\<close> on the batch and \<open>broken\<close> for the websockets whose
  \<open>send_json\<close> raises. The loop has no handler: the first exception ends it. The result
  is that exception, if any, the messages sent, in order, and the registry the loop
  leaves.
\<close>

function iterate_subscriptions ::
  "('d \<Rightarrow> exn + string) \<Rightarrow> websocket set \<Rightarrow> 'd \<Rightarrow> event list list \<Rightarrow> nat
     \<Rightarrow> websocket list \<Rightarrow> websocket list
     \<Rightarrow> exn option \<times> (websocket \<times> string) list \<times> websocket list" where
  "iterate_subscriptions dumps broken d during size0 rest subs =
     (if length subs \<noteq> size0 then (Some RuntimeError, [], subs)
      else case rest of
             [] \<Rightarrow> (None, [], subs)
           | w # rest' \<Rightarrow>
               (case dumps d of
                  Inl e \<Rightarrow> (Some e, [], subs)
                | Inr payload \<Rightarrow>
                    (case steps_during_send (case during of [] \<Rightarrow> [] | es # _ \<Rightarrow> es) (subs, rest') of
                       (subs', rest'') \<Rightarrow>
                         if w \<in> broken then (Some WebSocketSendError, [], subs')
                         else (case iterate_subscriptions dumps broken d (tl during) size0 rest'' subs' of
                                 (r, out, subs'') \<Rightarrow> (r, (w, payload) # out, subs'')))))"
  by pat_completeness auto
termination
  by (relation "measures [\<lambda>(dumps, broken, d, during, size0, rest, subs). length during,
                          \<lambda>(dumps, broken, d, during, size0, rest, subs). length rest]")
     (auto split: list.splits)

declare iterate_subscriptions.simps [simp del]

definition send_data_to_subscribers ::
  "('d \<Rightarrow> exn + string) \<Rightarrow> websocket set \<Rightarrow> 'd \<Rightarrow> event list list \<Rightarrow> websocket list
     \<Rightarrow> exn option \<times> (websocket \<times> string) list \<times> websocket list" where
  "send_data_to_subscribers dumps broken d during subs =
     iterate_subscriptions dumps broken d during (length subs) subs subs"

text \<open>A step that connects or disconnects a websocket; the others leave the registry alone.\<close>

fun registry_step :: "event \<Rightarrow> bool" where
  "registry_step (Accepted _) = True"
| "registry_step (Received _ Disconnect) = True"
| "registry_step (Received _ (Text _)) = False"
| "registry_step (Received _ ReceiveError) = False"

definition undisturbed :: "event list list \<Rightarrow> bool" where
  "undisturbed during = list_all (list_all (\<lambda>e. \<not> registry_step e)) during"

text \<open>
  \<open>json.dumps\<close> as the standard library has it on a list of model objects: the empty
  list is \<open>[]\<close>, and an object that is no dict, list, string or number raises \<open>TypeError\<close>.
\<close>

definition json_dumps :: "ProcessedAgentData list \<Rightarrow> exn + string" where
  "json_dumps d = (if d = [] then Inr ''[]'' else Inl TypeError)"

text \<open>The loop of inserts; \<open>k\<close> counts the calls into the database.\<close>

fun insert_units ::
  "db_fault \<Rightarrow> nat \<Rightarrow> ProcessedAgentData list \<Rightarrow> database \<Rightarrow> exn option \<times> database" where
  "insert_units fault k [] s = (None, s)"
| "insert_units fault k (data_unit # rest) s =
     (if fault = Some k then (Some SQLAlchemyError, s)
      else case execute_insert data_unit s of
             (Some e, s') \<Rightarrow> (Some e, s')
           | (None, s') \<Rightarrow> insert_units fault (Suc k) rest s')"

record create_result =
  response :: "failure + unit"
  db_after :: database
  subscriptions_after :: "websocket list"
  sent :: "(websocket \<times> string) list"

text \<open>
  The inserts and the commit are calls without an \<open>await\<close>: no endpoint step runs before
  the broadcast starts, so the loop begins on the registry the request found.
\<close>

definition create_processed_agent_data ::
  "(ProcessedAgentData list \<Rightarrow> exn + string) \<Rightarrow> websocket set \<Rightarrow> db_fault \<Rightarrow> event list list
     \<Rightarrow> ProcessedAgentData list \<Rightarrow> database \<Rightarrow> websocket list \<Rightarrow> create_result" where
  "create_processed_agent_data dumps broken fault during d db subs =
     (case insert_units fault 0 d db of
        (Some e, s) \<Rightarrow>
          \<lparr>response = Inl (InternalServerError e), db_after = db\<lparr>id_seq := id_seq s\<rparr>,
           subscriptions_after = subs, sent = []\<rparr>
      | (None, s) \<Rightarrow>
          if fault = Some (length d)
          then \<lparr>response = Inl (InternalServerError SQLAlchemyError),
                db_after = db\<lparr>id_seq := id_seq s\<rparr>, subscriptions_after = subs, sent = []\<rparr>
          else (case send_data_to_subscribers dumps broken d during subs of
                  (Some e, out, subs') \<Rightarrow>
                    \<lparr>response = Inl (InternalServerError e), db_after = s,
                     subscriptions_after = subs', sent = out\<rparr>
                | (None, out, subs') \<Rightarrow>
                    \<lparr>response = Inr (), db_after = s, subscriptions_after = subs', sent = out\<rparr>))"

text \<open>
  \<open>AgentData.check_timestamp\<close> as it is written, with \<open>datetime.fromisoformat\<close> as
  \<open>fromisoformat\<close>. The value is a date-time already, a string, or something else, on
  which \<open>fromisoformat\<close> raises \<open>TypeError\<close>.
\<close>

datatype raw_timestamp = RawDatetime datetime | RawStr string | RawOther

definition timestamp_message :: string where
  "timestamp_message =
     ''Invalid timestamp format. Expected ISO 8601 format (YYYY-MM-DDTHH:MM:SSZ).''"

definition check_timestamp :: "(string \<Rightarrow> datetime option) \<Rightarrow> raw_timestamp \<Rightarrow> string + datetime" where
  "check_timestamp fromisoformat v =
     (case v of
        RawDatetime dt \<Rightarrow> Inr dt
      | RawStr s \<Rightarrow>
          (case fromisoformat s of
             Some dt \<Rightarrow> Inr dt
           | None \<Rightarrow> Inl timestamp_message)
      | RawOther \<Rightarrow> Inl timestamp_message)"

text \<open>
  The route: the framework validates every item of the body before it calls the handler,
  and answers 422 itself when one fails. \<open>validate\<close> is that validation of one item.
\<close>

fun validate_body :: "('raw \<Rightarrow> string + 'd) \<Rightarrow> 'raw list \<Rightarrow> string + 'd list" where
  "validate_body validate [] = Inr []"
| "validate_body validate (x # xs) =
     (case validate x of
        Inl msg \<Rightarrow> Inl msg
      | Inr d \<Rightarrow>
          (case validate_body validate xs of
             Inl msg \<Rightarrow> Inl msg
           | Inr ds \<Rightarrow> Inr (d # ds)))"

definition post_processed_agent_data ::
  "('raw \<Rightarrow> string + ProcessedAgentData) \<Rightarrow> (ProcessedAgentData list \<Rightarrow> exn + string)
     \<Rightarrow> websocket set \<Rightarrow> db_fault \<Rightarrow> event list list \<Rightarrow> 'raw list \<Rightarrow> database
     \<Rightarrow> websocket list \<Rightarrow> create_result" where
  "post_processed_agent_data validate dumps broken fault during body db subs =
     (case validate_body validate body of
        Inl msg \<Rightarrow>
          \<lparr>response = Inl (RequestValidationError msg), db_after = db,
           subscriptions_after = subs, sent = []\<rparr>
      | Inr d \<Rightarrow> create_processed_agent_data dumps broken fault during d db subs)"

section \<open>Runs of requests\<close>

text \<open>
  The requests that write to the store, each with what the database does during it, and
  the store a run of them leaves (which does not depend on the endpoint steps that run
  during a broadcast). \<open>gone i\<close> says that the identifier \<open>i\<close> was handed out by the
  sequence and is in no row.
\<close>

datatype request =
  Create "ProcessedAgentData list"
  | Update int ProcessedAgentData
  | Delete int

fun store_after ::
  "(ProcessedAgentData list \<Rightarrow> exn + string) \<Rightarrow> websocket set \<Rightarrow> websocket list
     \<Rightarrow> db_fault \<times> request \<Rightarrow> database \<Rightarrow> database" where
  "store_after dumps broken subs (fault, Create d) db =
     db_after (create_processed_agent_data dumps broken fault [] d db subs)"
| "store_after dumps broken subs (fault, Update i d) db =
     snd (update_processed_agent_data fault i d db)"
| "store_after dumps broken subs (fault, Delete i) db =
     snd (delete_processed_agent_data fault i db)"

fun serve_all ::
  "(ProcessedAgentData list \<Rightarrow> exn + string) \<Rightarrow> websocket set \<Rightarrow> websocket list
     \<Rightarrow> (db_fault \<times> request) list \<Rightarrow> database \<Rightarrow> database" where
  "serve_all dumps broken subs [] db = db"
| "serve_all dumps broken subs (r # rs) db =
     serve_all dumps broken subs rs (store_after dumps broken subs r db)"

definition gone :: "int \<Rightarrow> database \<Rightarrow> bool" where
  "gone i db = (wf_db db \<and> i \<notin> ids (processed_agent_data db) \<and> i < id_seq db)"

section \<open>The client adapter (Hub/app/adapters/store_api_adapter.py)\<close>

record http_request =
  req_url :: string
  req_data :: string

record http_response =
  resp_status_code :: nat
  resp_content :: string

text \<open>\<open>sep.join(parts)\<close>.\<close>

fun join :: "string \<Rightarrow> string list \<Rightarrow> string" where
  "join sep [] = []"
| "join sep [p] = p"
| "join sep (p # q # ps) = p @ sep @ join sep (q # ps)"

text \<open>
  \<open>model_dump_json\<close> is the serialiser of the entity class and \<open>requests_post\<close> the
  transport, which answers or raises. The result is the list of requests sent and what
  \<open>save_data\<close> returns or raises.
\<close>

definition save_data ::
  "string \<Rightarrow> ('d \<Rightarrow> string) \<Rightarrow> (http_request \<Rightarrow> exn + http_response) \<Rightarrow> 'd list
     \<Rightarrow> http_request list \<times> (exn + bool)" where
  "save_data api_base_url model_dump_json requests_post processed_agent_data_batch =
     (let api_endpoint_url = api_base_url @ ''/processed_agent_data'';
          processed_data = map model_dump_json processed_agent_data_batch;
          request = \<lparr>req_url = api_endpoint_url,
                     req_data = ''['' @ join '','' processed_data @ '']''\<rparr>
      in case requests_post request of
           Inl e \<Rightarrow> ([request], Inl e)
         | Inr resp \<Rightarrow>
             ([request], Inr (if resp_status_code resp \<noteq> 200 then False else True)))"

section \<open>Concrete inputs\<close>

definition example_row :: ProcessedAgentDataInDB where
  "example_row =
     \<lparr>db_id = 1, db_road_state = ''good'',
      db_x = 0x3FF0000000000000, db_y = 0x4000000000000000, db_z = 0x4008000000000000,
      db_latitude = 0x4024000000000000, db_longitude = 0x4034000000000000,
      db_timestamp = \<lparr>wall_clock = 1704067200000000, utcoffset = None\<rparr>\<rparr>"

text \<open>
  The row and the record of 2024-01-01T00:00:00, and the same record with the axis
  \<open>x\<close> at negative zero and the timestamp 2024-01-01T00:00:00+05:00.
\<close>

definition example_db :: database where
  "example_db = \<lparr>processed_agent_data = [example_row], id_seq = 2\<rparr>"

definition example_unit :: ProcessedAgentData where
  "example_unit =
     \<lparr>road_state = ''good'',
      agent_data =
        \<lparr>accelerometer = \<lparr>acc_x = 0x3FF0000000000000, acc_y = 0x4000000000000000,
                          acc_z = 0x4008000000000000\<rparr>,
         gps = \<lparr>latitude = 0x4024000000000000, longitude = 0x4034000000000000\<rparr>,
         timestamp = \<lparr>wall_clock = 1704067200000000, utcoffset = None\<rparr>\<rparr>\<rparr>"


text \<open>A store that answers every request with the same status and body.\<close>

definition store_answers :: "nat \<Rightarrow> string \<Rightarrow> http_request \<Rightarrow> exn + http_response" where
  "store_answers code text r = Inr \<lparr>resp_status_code = code, resp_content = text\<rparr>"

section \<open>Facts about the store\<close>

lemma select_first_None_iff: "select_first i t = None \<longleftrightarrow> i \<notin> ids t"
  by (auto simp: select_first_def ids_def find_None_iff)

lemma select_first_SomeD: "select_first i t = Some r \<Longrightarrow> r \<in> set t \<and> db_id r = i"
  by (auto simp: select_first_def find_Some_iff)

lemma ids_delete_where: "ids (delete_where i t) = ids t - {i}"
  by (auto simp: ids_def delete_where_def)

lemma ids_update_where: "ids (update_where i d t) = ids t"
  by (induction t) (simp_all add: ids_def update_where_def)

lemma db_id_row_of [simp]: "db_id (row_of i d) = i"
  by (simp add: row_of_def)

lemma length_new_rows [simp]: "length (new_rows i ds) = length ds"
  by (induction ds arbitrary: i) auto

lemma nth_new_rows: "k < length ds \<Longrightarrow> new_rows i ds ! k = row_of (i + int k) (ds ! k)"
proof (induction ds arbitrary: i k)
  case Nil
  then show ?case by simp
next
  case (Cons d ds)
  then show ?case by (cases k) (auto simp: algebra_simps)
qed

lemma map_db_id_new_rows: "map db_id (new_rows i ds) = map (\<lambda>k. i + int k) [0..<length ds]"
  by (rule nth_equalityI) (auto simp: nth_new_rows)

lemma ids_new_rows: "ids (new_rows i ds) = {i ..< i + int (length ds)}"
proof -
  have "ids (new_rows i ds) = set (map db_id (new_rows i ds))"
    by (simp add: ids_def)
  also have "\<dots> = (\<lambda>k. i + int k) ` {0..<length ds}"
    by (simp add: map_db_id_new_rows)
  also have "\<dots> = {i ..< i + int (length ds)}"
  proof (rule set_eqI, rule iffI)
    fix x assume "x \<in> (\<lambda>k. i + int k) ` {0..<length ds}"
    then show "x \<in> {i ..< i + int (length ds)}" by auto
  next
    fix x assume x: "x \<in> {i ..< i + int (length ds)}"
    then have "x = i + int (nat (x - i))" "nat (x - i) < length ds" by auto
    then show "x \<in> (\<lambda>k. i + int k) ` {0..<length ds}" by (metis atLeast0LessThan imageI lessThan_iff)
  qed
  finally show ?thesis .
qed

lemma execute_insert_None:
  "execute_insert d s = (None, s') \<Longrightarrow>
     s' = s\<lparr>id_seq := id_seq s + 1, processed_agent_data := processed_agent_data s @ [row_of (id_seq s) d]\<rparr>
     \<and> id_seq s \<notin> ids (processed_agent_data s)"
  by (auto simp: execute_insert_def Let_def split: if_splits)

lemma execute_insert_fresh:
  "id_seq s \<notin> ids (processed_agent_data s) \<Longrightarrow>
     execute_insert d s = (None, s\<lparr>id_seq := id_seq s + 1, processed_agent_data := processed_agent_data s @ [row_of (id_seq s) d]\<rparr>)"
  by (simp add: execute_insert_def Let_def)

lemma execute_insert_seq: "id_seq (snd (execute_insert d s)) = id_seq s + 1"
  by (simp add: execute_insert_def Let_def)

lemma insert_units_None:
  "insert_units fault k ds s = (None, s') \<Longrightarrow>
     processed_agent_data s' = processed_agent_data s @ new_rows (id_seq s) ds
     \<and> id_seq s' = id_seq s + int (length ds)"
proof (induction ds arbitrary: k s)
  case Nil
  then show ?case by simp
next
  case (Cons d ds)
  from Cons.prems obtain s1 where
    e: "execute_insert d s = (None, s1)" and r: "insert_units fault (Suc k) ds s1 = (None, s')"
    by (auto split: if_splits prod.splits option.splits)
  from execute_insert_None [OF e] Cons.IH [OF r] show ?case by simp
qed

lemma insert_units_seq_mono: "id_seq s \<le> id_seq (snd (insert_units fault k ds s))"
proof (induction ds arbitrary: k s)
  case Nil
  then show ?case by simp
next
  case (Cons d ds)
  show ?case
  proof (cases "fault = Some k")
    case True
    then show ?thesis by simp
  next
    case False
    obtain r s1 where e: "execute_insert d s = (r, s1)" by (cases "execute_insert d s")
    have s1: "id_seq s1 = id_seq s + 1" using execute_insert_seq [of d s] e by simp
    show ?thesis
    proof (cases r)
      case None
      with False e s1 Cons.IH [of s1 "Suc k"] show ?thesis by simp
    next
      case (Some a)
      with False e s1 show ?thesis by simp
    qed
  qed
qed

lemma insert_units_healthy:
  assumes "\<forall>r \<in> set (processed_agent_data s). db_id r < id_seq s"
    and "\<forall>j. fault = Some j \<longrightarrow> j < k \<or> k + length ds \<le> j"
  shows "insert_units fault k ds s =
     (None, s\<lparr>id_seq := id_seq s + int (length ds),
               processed_agent_data := processed_agent_data s @ new_rows (id_seq s) ds\<rparr>)"
  using assms
proof (induction ds arbitrary: k s)
  case Nil
  then show ?case by simp
next
  case (Cons d ds)
  let ?s1 = "s\<lparr>id_seq := id_seq s + 1, processed_agent_data := processed_agent_data s @ [row_of (id_seq s) d]\<rparr>"
  from Cons.prems(1) have fresh: "id_seq s \<notin> ids (processed_agent_data s)"
    by (auto simp: ids_def)
  from Cons.prems(2) have nf: "fault \<noteq> Some k" by auto
  have inv: "\<forall>r \<in> set (processed_agent_data ?s1). db_id r < id_seq ?s1"
    using Cons.prems(1) by auto
  have fl: "\<forall>j. fault = Some j \<longrightarrow> j < Suc k \<or> Suc k + length ds \<le> j"
    using Cons.prems(2) by auto
  from Cons.IH [OF inv fl] nf execute_insert_fresh [OF fresh, of d]
  show ?case by (simp add: algebra_simps)
qed

lemma insert_units_fault:
  "fault = Some j \<Longrightarrow> k \<le> j \<Longrightarrow> j < k + length ds \<Longrightarrow> fst (insert_units fault k ds s) \<noteq> None"
proof (induction ds arbitrary: k s)
  case Nil
  then show ?case by simp
next
  case (Cons d ds)
  show ?case
  proof (cases "j = k")
    case True
    with Cons.prems show ?thesis by simp
  next
    case False
    with Cons.prems have "Suc k \<le> j" "j < Suc k + length ds" by auto
    from Cons.IH [OF Cons.prems(1) this] Cons.prems(1) False
    show ?thesis by (auto split: prod.splits option.splits)
  qed
qed


lemma map_db_id_update_where: "map db_id (update_where i d t) = map db_id t"
  by (induction t) (simp_all add: update_where_def)

lemma map_db_id_delete_where: "map db_id (delete_where i t) = filter (\<lambda>j. j \<noteq> i) (map db_id t)"
  by (induction t) (simp_all add: delete_where_def)

lemma set_update_where_ids: "r \<in> set (update_where i d t) \<Longrightarrow> db_id r \<in> ids t"
  using ids_update_where [of i d t] by (auto simp: ids_def)

lemma wf_db_seq: "wf_db db \<Longrightarrow> id_seq db \<le> n \<Longrightarrow> wf_db (db\<lparr>id_seq := n\<rparr>)"
  by (auto simp: wf_db_def)

lemma wf_db_append_new_rows:
  assumes "wf_db db"
  shows "wf_db (db\<lparr>id_seq := id_seq db + int (length ds),
                   processed_agent_data := processed_agent_data db @ new_rows (id_seq db) ds\<rparr>)"
proof -
  have d1: "distinct (map db_id (new_rows (id_seq db) ds))"
    by (simp add: map_db_id_new_rows distinct_map inj_on_def)
  have d2: "set (map db_id (processed_agent_data db)) \<inter> set (map db_id (new_rows (id_seq db) ds)) = {}"
    using assms ids_new_rows [of "id_seq db" ds] by (fastforce simp: wf_db_def ids_def)
  have lt: "\<forall>r \<in> set (new_rows (id_seq db) ds). db_id r < id_seq db + int (length ds)"
    using ids_new_rows [of "id_seq db" ds] by (auto simp: ids_def)
  from assms d1 d2 lt show ?thesis
    by (auto simp: wf_db_def)
qed

lemma wf_db_update_where:
  assumes "wf_db db"
  shows "wf_db (db\<lparr>processed_agent_data := update_where i u (processed_agent_data db)\<rparr>)"
proof -
  have "\<forall>r \<in> set (update_where i u (processed_agent_data db)). db_id r < id_seq db"
  proof
    fix r assume "r \<in> set (update_where i u (processed_agent_data db))"
    then have "db_id r \<in> ids (processed_agent_data db)" by (rule set_update_where_ids)
    then obtain r' where "r' \<in> set (processed_agent_data db)" "db_id r = db_id r'"
      by (auto simp: ids_def)
    with assms show "db_id r < id_seq db" by (simp add: wf_db_def)
  qed
  with assms show ?thesis
    by (simp add: wf_db_def map_db_id_update_where)
qed

lemma wf_db_delete_where:
  assumes "wf_db db"
  shows "wf_db (db\<lparr>processed_agent_data := delete_where i (processed_agent_data db)\<rparr>)"
  using assms by (simp add: wf_db_def map_db_id_delete_where) (simp add: delete_where_def)

lemma wf_db_update: "wf_db db \<Longrightarrow> wf_db (snd (update_processed_agent_data fault i u db))"
  using wf_db_update_where [of db i u]
  by (simp add: update_processed_agent_data_def Let_def split: option.splits)

lemma wf_db_delete: "wf_db db \<Longrightarrow> wf_db (snd (delete_processed_agent_data fault i db))"
  using wf_db_delete_where [of db i]
  by (simp add: delete_processed_agent_data_def split: option.splits)

lemma wf_db_empty: "wf_db \<lparr>processed_agent_data = [], id_seq = n\<rparr>"
  by (simp add: wf_db_def)

section \<open>Not-found on read, update and delete\<close>

text \<open>
  Claim C6. For an identifier that no row of the store has, read, update and delete
  each answer with the 404 \<open>HTTPException\<close>, which is neither the validation failure
  (422) nor a server error (500), and update and delete leave the store as it was (read
  has no way to change it). The store is unchanged whatever the database does; the
  answer is the 404 unless the select itself raises.
\<close>

theorem absent_id_not_found:
  assumes "i \<notin> ids (processed_agent_data db)"
  shows "snd (update_processed_agent_data fault i d db) = db
       \<and> snd (delete_processed_agent_data fault i db) = db
       \<and> (fault \<noteq> Some 0 \<longrightarrow>
            read_processed_agent_data fault i db = Inl not_found
          \<and> update_processed_agent_data fault i d db = (Inl not_found, db)
          \<and> delete_processed_agent_data fault i db = (Inl not_found, db))
       \<and> failure_status not_found = 404
       \<and> failure_status not_found \<noteq> failure_status (RequestValidationError msg)
       \<and> failure_status not_found \<noteq> failure_status (InternalServerError e)"
proof -
  from assms have sel: "select_first i (processed_agent_data db) = None"
    by (simp add: select_first_None_iff)
  show ?thesis
    by (simp add: sel update_processed_agent_data_def delete_processed_agent_data_def
        read_processed_agent_data_def not_found_def)
qed

theorem absent_id_not_found_witness:
  "7 \<notin> ids (processed_agent_data example_db)
   \<and> read_processed_agent_data None 7 example_db = Inl not_found
   \<and> update_processed_agent_data None 7 example_unit example_db = (Inl not_found, example_db)
   \<and> delete_processed_agent_data None 7 example_db = (Inl not_found, example_db)"
proof -
  have absent: "7 \<notin> ids (processed_agent_data example_db)"
    by (simp add: ids_def example_db_def example_row_def)
  from absent_id_not_found [OF absent, of None example_unit] absent
  show ?thesis by simp
qed

section \<open>List\<close>

text \<open>
  Claim C10. The list endpoint never answers the 404 of its \<open>is None\<close> branch, because
  the executed select gives a result object; when the database raises nothing it
  returns all rows of the store, which is the empty array for the empty store.
\<close>

theorem list_never_not_found:
  "list_processed_agent_data fault db \<noteq> Inl (HTTPException 404 msg)
   \<and> list_processed_agent_data None db = Inr (processed_agent_data db)
   \<and> list_processed_agent_data None \<lparr>processed_agent_data = [], id_seq = n\<rparr> = Inr []
   \<and> execute_select_all (processed_agent_data db) \<noteq> None"
  by (simp add: list_processed_agent_data_def execute_select_all_def)

section \<open>The store after create\<close>


lemma wf_db_create:
  assumes "wf_db db"
  shows "wf_db (db_after (create_processed_agent_data dumps broken fault during d db subs))"
proof -
  obtain r s where iu: "insert_units fault 0 d db = (r, s)"
    by (cases "insert_units fault 0 d db")
  have mono: "id_seq db \<le> id_seq s"
    using insert_units_seq_mono [of db fault 0 d] iu by simp
  show ?thesis
  proof (cases r)
    case (Some e)
    with iu wf_db_seq [OF assms mono] show ?thesis
      by (simp add: create_processed_agent_data_def)
  next
    case None
    from insert_units_None [OF iu [unfolded None]]
    have s: "s = db\<lparr>id_seq := id_seq db + int (length d),
            processed_agent_data := processed_agent_data db @ new_rows (id_seq db) d\<rparr>"
      by (cases s, cases db) simp
    from None iu wf_db_seq [OF assms mono] wf_db_append_new_rows [OF assms, of d] s show ?thesis
      by (auto simp: create_processed_agent_data_def split: prod.splits option.splits)
  qed
qed

section \<open>Runs keep the store well formed\<close>

lemma ids_append: "ids (t @ t') = ids t \<union> ids t'"
  by (auto simp: ids_def)

lemma create_table_cases:
  "processed_agent_data (db_after (create_processed_agent_data dumps broken fault during d db subs))
      = processed_agent_data db
   \<or> processed_agent_data (db_after (create_processed_agent_data dumps broken fault during d db subs))
      = processed_agent_data db @ new_rows (id_seq db) d"
proof -
  obtain r s where iu: "insert_units fault 0 d db = (r, s)"
    by (cases "insert_units fault 0 d db")
  show ?thesis
  proof (cases r)
    case (Some e)
    with iu show ?thesis by (simp add: create_processed_agent_data_def)
  next
    case None
    from insert_units_None [OF iu [unfolded None]] iu None show ?thesis
      by (simp add: create_processed_agent_data_def split: prod.splits option.splits)
  qed
qed

lemma create_seq_mono:
  "id_seq db \<le> id_seq (db_after (create_processed_agent_data dumps broken fault during d db subs))"
proof -
  obtain r s where iu: "insert_units fault 0 d db = (r, s)"
    by (cases "insert_units fault 0 d db")
  from insert_units_seq_mono [of db fault 0 d] iu have "id_seq db \<le> id_seq s" by simp
  with iu show ?thesis
    by (cases r) (simp_all add: create_processed_agent_data_def split: prod.splits option.splits)
qed

lemma update_store_cases:
  "snd (update_processed_agent_data fault i u db) = db
   \<or> snd (update_processed_agent_data fault i u db)
      = db\<lparr>processed_agent_data := update_where i u (processed_agent_data db)\<rparr>"
  by (simp add: update_processed_agent_data_def Let_def split: option.splits)

lemma delete_store_cases:
  "snd (delete_processed_agent_data fault i db) = db
   \<or> snd (delete_processed_agent_data fault i db)
      = db\<lparr>processed_agent_data := delete_where i (processed_agent_data db)\<rparr>"
  by (simp add: delete_processed_agent_data_def split: option.splits)

lemma wf_db_store_after: "wf_db db \<Longrightarrow> wf_db (store_after dumps broken subs r db)"
proof (cases r)
  case (Pair fault rq)
  assume "wf_db db"
  then show ?thesis unfolding Pair
    by (cases rq) (simp_all add: wf_db_create wf_db_update wf_db_delete)
qed


lemma gone_store_after:
  assumes "gone i db"
  shows "gone i (store_after dumps broken subs r db)"
proof (cases r)
  case (Pair fault rq)
  from assms have wf: "wf_db db" and ni: "i \<notin> ids (processed_agent_data db)"
    and lt: "i < id_seq db" by (simp_all add: gone_def)
  have wf': "wf_db (store_after dumps broken subs r db)"
    by (rule wf_db_store_after [OF wf])
  show ?thesis
  proof (cases rq)
    case (Create d)
    let ?C = "create_processed_agent_data dumps broken fault [] d db subs"
    have "ids (processed_agent_data (db_after ?C)) \<subseteq> ids (processed_agent_data db) \<union> {id_seq db ..< id_seq db + int (length d)}"
      using create_table_cases [of dumps broken fault "[]" d db subs]
      by (auto simp: ids_append ids_new_rows)
    with ni lt have "i \<notin> ids (processed_agent_data (db_after ?C))" by auto
    moreover from lt create_seq_mono [of db dumps broken fault "[]" d subs]
    have "i < id_seq (db_after ?C)" by simp
    ultimately show ?thesis using wf' by (simp add: gone_def Pair Create)
  next
    case (Update j u)
    from update_store_cases [of fault j u db] ni lt
    have "i \<notin> ids (processed_agent_data (snd (update_processed_agent_data fault j u db)))
        \<and> i < id_seq (snd (update_processed_agent_data fault j u db))"
      by (auto simp: ids_update_where)
    then show ?thesis using wf' by (simp add: gone_def Pair Update)
  next
    case (Delete j)
    from delete_store_cases [of fault j db] ni lt
    have "i \<notin> ids (processed_agent_data (snd (delete_processed_agent_data fault j db)))
        \<and> i < id_seq (snd (delete_processed_agent_data fault j db))"
      by (auto simp: ids_delete_where)
    then show ?thesis using wf' by (simp add: gone_def Pair Delete)
  qed
qed

lemma gone_serve_all: "gone i db \<Longrightarrow> gone i (serve_all dumps broken subs rs db)"
  by (induction rs arbitrary: db) (simp_all add: gone_store_after)

lemma gone_read: "gone i db \<Longrightarrow> read_processed_agent_data None i db = Inl not_found"
  by (simp add: gone_def read_processed_agent_data_def select_first_None_iff [THEN iffD2])

lemma gone_after_delete:
  assumes "wf_db db" and "select_first i (processed_agent_data db) = Some r"
  shows "gone i (snd (delete_processed_agent_data None i db))"
proof -
  from select_first_SomeD [OF assms(2)] assms(1) have "i < id_seq db"
    by (auto simp: wf_db_def)
  with wf_db_delete [OF assms(1), of None i] assms(2) show ?thesis
    by (simp add: gone_def delete_processed_agent_data_def ids_delete_where)
qed

section \<open>Delete\<close>

text \<open>
  Claim C7. When the store has a row with the identifier and the database raises
  nothing, delete returns that row (the first one the select finds) and removes every
  row with the identifier; on the store it leaves, a read of the identifier answers the
  404, and so does a second delete, which changes nothing. On a store whose identifiers
  are unique and below the sequence the identifier is never handed out again: after
  any run of create, update and delete requests that follows, whatever the database does
  during them, a read of it still answers the 404.
\<close>

theorem delete_present_id:
  assumes "select_first i (processed_agent_data db) = Some r"
  shows "fst (delete_processed_agent_data None i db) = Inr r
       \<and> processed_agent_data (snd (delete_processed_agent_data None i db))
           = delete_where i (processed_agent_data db)
       \<and> i \<notin> ids (processed_agent_data (snd (delete_processed_agent_data None i db)))
       \<and> read_processed_agent_data None i (snd (delete_processed_agent_data None i db))
           = Inl not_found
       \<and> delete_processed_agent_data None i (snd (delete_processed_agent_data None i db))
           = (Inl not_found, snd (delete_processed_agent_data None i db))
       \<and> failure_status not_found = 404
       \<and> (wf_db db \<longrightarrow>
            read_processed_agent_data None i
              (serve_all dumps broken subs rs (snd (delete_processed_agent_data None i db)))
            = Inl not_found)"
proof -
  let ?db' = "db\<lparr>processed_agent_data := delete_where i (processed_agent_data db)\<rparr>"
  have del: "delete_processed_agent_data None i db = (Inr r, ?db')"
    by (simp add: delete_processed_agent_data_def assms)
  have absent: "select_first i (delete_where i (processed_agent_data db)) = None"
    by (simp add: select_first_None_iff ids_delete_where)
  have "i \<notin> ids (processed_agent_data ?db')"
    by (simp add: ids_delete_where)
  moreover have "read_processed_agent_data None i ?db' = Inl not_found"
    by (simp add: read_processed_agent_data_def absent)
  moreover have "delete_processed_agent_data None i ?db' = (Inl not_found, ?db')"
    by (simp add: delete_processed_agent_data_def absent)
  moreover have "read_processed_agent_data None i
              (serve_all dumps broken subs rs (snd (delete_processed_agent_data None i db)))
            = Inl not_found" if "wf_db db"
    by (rule gone_read [OF gone_serve_all [OF gone_after_delete [OF that assms]]])
  ultimately show ?thesis
    by (simp add: del not_found_def)
qed

theorem delete_present_id_witness:
  "select_first 1 (processed_agent_data example_db) = Some example_row
   \<and> wf_db example_db
   \<and> delete_processed_agent_data None 1 example_db
       = (Inr example_row, \<lparr>processed_agent_data = [], id_seq = 2\<rparr>)
   \<and> read_processed_agent_data None 1 \<lparr>processed_agent_data = [], id_seq = 2\<rparr> = Inl not_found
   \<and> delete_processed_agent_data None 1 \<lparr>processed_agent_data = [], id_seq = 2\<rparr>
       = (Inl not_found, \<lparr>processed_agent_data = [], id_seq = 2\<rparr>)
   \<and> read_processed_agent_data None 1
        (serve_all json_dumps {} [] [(None, Create [example_unit])]
           \<lparr>processed_agent_data = [], id_seq = 2\<rparr>) = Inl not_found"
proof -
  have present: "select_first 1 (processed_agent_data example_db) = Some example_row"
    by (simp add: select_first_def example_db_def example_row_def)
  have wf: "wf_db example_db"
    by (simp add: wf_db_def example_db_def example_row_def)
  have del: "delete_processed_agent_data None 1 example_db
       = (Inr example_row, \<lparr>processed_agent_data = [], id_seq = 2\<rparr>)"
    by (simp add: delete_processed_agent_data_def present)
       (simp add: example_db_def example_row_def delete_where_def)
  from delete_present_id
    [OF present, of json_dumps "{}" "[]" "[(None, Create [example_unit])]"] del present wf
  show ?thesis by simp
qed

section \<open>Create, then read, and unique identifiers\<close>






section \<open>The broadcast loop\<close>

lemma iterate_size_changed:
  "length subs \<noteq> size0 \<Longrightarrow>
     iterate_subscriptions dumps broken d during size0 rest subs = (Some RuntimeError, [], subs)"
  by (subst iterate_subscriptions.simps) simp

lemma iterate_Nil:
  "length subs = size0 \<Longrightarrow>
     iterate_subscriptions dumps broken d during size0 [] subs = (None, [], subs)"
  by (subst iterate_subscriptions.simps) simp

lemma iterate_dumps_fails:
  "dumps d = Inl e \<Longrightarrow> rest \<noteq> [] \<Longrightarrow> length subs = size0 \<Longrightarrow>
     iterate_subscriptions dumps broken d during size0 rest subs = (Some e, [], subs)"
  by (subst iterate_subscriptions.simps) (simp split: list.splits)

lemma iterate_Cons:
  assumes "length subs = size0" and "dumps d = Inr payload"
    and "steps_during_send (case during of [] \<Rightarrow> [] | es # _ \<Rightarrow> es) (subs, rest) = (subs', rest')"
  shows "iterate_subscriptions dumps broken d during size0 (w # rest) subs =
     (if w \<in> broken then (Some WebSocketSendError, [], subs')
      else (case iterate_subscriptions dumps broken d (tl during) size0 rest' subs' of
              (r, out, subs'') \<Rightarrow> (r, (w, payload) # out, subs'')))"
  by (subst iterate_subscriptions.simps) (simp add: assms)

lemma step_during_send_registry:
  "fst (step_during_send e (subs, rest)) =
     (case endpoint_step e subs of Inl _ \<Rightarrow> subs | Inr subs' \<Rightarrow> subs')"
proof (cases e)
  case (Accepted w)
  then show ?thesis by (simp add: subscriptions_add_def)
next
  case (Received w r)
  then show ?thesis by (cases r) (simp_all add: subscriptions_remove_def)
qed

lemma step_during_send_quiet: "\<not> registry_step e \<Longrightarrow> step_during_send e st = st"
proof (cases e)
  case (Accepted w)
  assume "\<not> registry_step e"
  with Accepted show ?thesis by simp
next
  case (Received w r)
  assume "\<not> registry_step e"
  with Received show ?thesis by (cases r; cases st) simp_all
qed

lemma steps_during_send_quiet:
  "list_all (\<lambda>e. \<not> registry_step e) es \<Longrightarrow> steps_during_send es st = st"
  by (induction es arbitrary: st) (simp_all add: step_during_send_quiet)

lemma undisturbed_take_head:
  "undisturbed (take (Suc n) during) \<Longrightarrow>
     steps_during_send (case during of [] \<Rightarrow> [] | es # _ \<Rightarrow> es) st = st"
  by (cases during) (simp_all add: undisturbed_def steps_during_send_quiet)

lemma undisturbed_take_tl:
  "undisturbed (take (Suc n) during) \<Longrightarrow> undisturbed (take n (tl during))"
  by (cases during) (simp_all add: undisturbed_def)

lemma iterate_all_served:
  assumes "dumps d = Inr payload" and "length subs = size0"
  shows "undisturbed (take (length rest) during) \<Longrightarrow> set rest \<inter> broken = {} \<Longrightarrow>
     iterate_subscriptions dumps broken d during size0 rest subs
       = (None, map (\<lambda>u. (u, payload)) rest, subs)"
proof (induction rest arbitrary: during)
  case Nil
  then show ?case by (simp add: iterate_Nil assms(2))
next
  case (Cons w rest)
  from Cons.prems have w: "w \<notin> broken" and r: "set rest \<inter> broken = {}" by auto
  from Cons.prems(1) have u: "undisturbed (take (Suc (length rest)) during)" by simp
  note hd = undisturbed_take_head [OF u, of "(subs, rest)"]
  from Cons.IH [OF undisturbed_take_tl [OF u] r] w
  show ?case by (simp add: iterate_Cons [where dumps = dumps and d = d, OF assms(2,1) hd])
qed

lemma iterate_send_fails:
  assumes "dumps d = Inr payload" and "length subs = size0" and "w \<in> broken"
  shows "set pre \<inter> broken = {} \<Longrightarrow> undisturbed (take (Suc (length pre)) during) \<Longrightarrow>
     iterate_subscriptions dumps broken d during size0 (pre @ w # post) subs
       = (Some WebSocketSendError, map (\<lambda>u. (u, payload)) pre, subs)"
proof (induction pre arbitrary: during)
  case Nil
  note hd = undisturbed_take_head [OF Nil.prems(2) [simplified], of "(subs, post)"]
  show ?case by (simp add: iterate_Cons [where dumps = dumps and d = d, OF assms(2,1) hd] assms(3))
next
  case (Cons v pre)
  from Cons.prems have v: "v \<notin> broken" and r: "set pre \<inter> broken = {}" by auto
  from Cons.prems(2) have u: "undisturbed (take (Suc (Suc (length pre))) during)" by simp
  note hd = undisturbed_take_head [OF u, of "(subs, pre @ w # post)"]
  from Cons.IH [OF r undisturbed_take_tl [OF u]] v
  show ?case by (simp add: iterate_Cons [where dumps = dumps and d = d, OF assms(2,1) hd])
qed

lemma iterate_size_change_during_send:
  assumes "dumps d = Inr payload" and "length subs = size0" and "v \<notin> broken"
    and "steps_during_send es (subs, rest) = (subs', rest')" and "length subs' \<noteq> size0"
  shows "iterate_subscriptions dumps broken d (es # later) size0 (v # rest) subs
       = (Some RuntimeError, [(v, payload)], subs')"
proof -
  have hd: "steps_during_send (case es # later of [] \<Rightarrow> [] | es # _ \<Rightarrow> es) (subs, rest) = (subs', rest')"
    using assms(4) by simp
  show ?thesis
    by (simp add: iterate_Cons [where dumps = dumps and d = d, OF assms(2,1) hd] assms(3) iterate_size_changed [OF assms(5)])
qed

text \<open>The store a create request leaves does not depend on the broadcast.\<close>

lemma db_after_broadcast:
  "db_after (create_processed_agent_data dumps broken fault during d db subs)
     = db_after (create_processed_agent_data dumps' broken' fault during' d db subs')"
  by (simp add: create_processed_agent_data_def split: prod.splits option.splits)

section \<open>Broadcast only after the commit\<close>

lemma validate_body_ok_create:
  "validate_body validate body = Inr d \<Longrightarrow>
     post_processed_agent_data validate dumps broken fault during body db subs
       = create_processed_agent_data dumps broken fault during d db subs"
  by (simp add: post_processed_agent_data_def)

lemma create_sent_committed:
  assumes "sent (create_processed_agent_data dumps broken fault during d db subs) \<noteq> []"
  shows "processed_agent_data (db_after (create_processed_agent_data dumps broken fault during d db subs))
           = processed_agent_data db @ new_rows (id_seq db) d"
proof -
  obtain r s where iu: "insert_units fault 0 d db = (r, s)"
    by (cases "insert_units fault 0 d db")
  from assms iu have r: "r = None" and nc: "fault \<noteq> Some (length d)"
    by (auto simp: create_processed_agent_data_def split: option.splits if_splits)
  from insert_units_None [OF iu [unfolded r]]
  have tab: "processed_agent_data s = processed_agent_data db @ new_rows (id_seq db) d"
    by simp
  from iu r nc tab show ?thesis
    by (simp add: create_processed_agent_data_def split: prod.splits option.splits)
qed

lemma create_db_fault:
  assumes "fault = Some j" and "j \<le> length d"
  shows "(\<exists>e. response (create_processed_agent_data dumps broken fault during d db subs)
               = Inl (InternalServerError e))
       \<and> processed_agent_data (db_after (create_processed_agent_data dumps broken fault during d db subs))
           = processed_agent_data db
       \<and> sent (create_processed_agent_data dumps broken fault during d db subs) = []"
proof -
  obtain r s where iu: "insert_units fault 0 d db = (r, s)"
    by (cases "insert_units fault 0 d db")
  show ?thesis
  proof (cases r)
    case (Some e)
    with iu show ?thesis by (simp add: create_processed_agent_data_def)
  next
    case None
    have "j = length d"
    proof (rule ccontr)
      assume "j \<noteq> length d"
      with assms have "j < 0 + length d" by simp
      from insert_units_fault [OF assms(1) _ this, of db] iu None show False by simp
    qed
    with None iu assms(1) show ?thesis by (simp add: create_processed_agent_data_def)
  qed
qed

text \<open>
  Claim C2. A create request sends to subscribers only after its commit. When an item
  of the body fails validation the answer is the 422, the store is as before and nothing
  is sent. When an insert or the commit raises the answer is a server error, the table
  is as before and nothing is sent. And whenever something was sent, the body had
  passed validation and the table holds the rows of the whole batch. This holds
  whatever the endpoints do during the broadcast.
\<close>

theorem broadcast_only_after_commit:
  fixes validate :: "'raw \<Rightarrow> string + ProcessedAgentData"
  defines "R \<equiv> post_processed_agent_data validate"
  shows "(validate_body validate body = Inl msg \<longrightarrow>
            response (R dumps broken fault during body db subs) = Inl (RequestValidationError msg)
          \<and> db_after (R dumps broken fault during body db subs) = db
          \<and> sent (R dumps broken fault during body db subs) = [])
       \<and> (validate_body validate body = Inr d \<and> fault = Some j \<and> j \<le> length d \<longrightarrow>
            (\<exists>e. response (R dumps broken fault during body db subs) = Inl (InternalServerError e))
          \<and> processed_agent_data (db_after (R dumps broken fault during body db subs))
              = processed_agent_data db
          \<and> sent (R dumps broken fault during body db subs) = [])
       \<and> (sent (R dumps broken fault during body db subs) \<noteq> [] \<longrightarrow>
            (\<exists>d'. validate_body validate body = Inr d'
               \<and> processed_agent_data (db_after (R dumps broken fault during body db subs))
                   = processed_agent_data db @ new_rows (id_seq db) d'))"
proof (intro conjI impI)
  assume "validate_body validate body = Inl msg"
  then show "response (R dumps broken fault during body db subs) = Inl (RequestValidationError msg)"
    "db_after (R dumps broken fault during body db subs) = db"
    "sent (R dumps broken fault during body db subs) = []"
    by (simp_all add: R_def post_processed_agent_data_def)
next
  assume a: "validate_body validate body = Inr d \<and> fault = Some j \<and> j \<le> length d"
  then have eq: "R dumps broken fault during body db subs
      = create_processed_agent_data dumps broken fault during d db subs"
    by (simp add: R_def validate_body_ok_create)
  from a create_db_fault [of fault j d dumps broken during db subs]
  show "\<exists>e. response (R dumps broken fault during body db subs) = Inl (InternalServerError e)"
    "processed_agent_data (db_after (R dumps broken fault during body db subs)) = processed_agent_data db"
    "sent (R dumps broken fault during body db subs) = []"
    unfolding eq by simp_all
next
  assume ne: "sent (R dumps broken fault during body db subs) \<noteq> []"
  show "\<exists>d'. validate_body validate body = Inr d'
               \<and> processed_agent_data (db_after (R dumps broken fault during body db subs))
                   = processed_agent_data db @ new_rows (id_seq db) d'"
  proof (cases "validate_body validate body")
    case (Inl m)
    with ne show ?thesis by (simp add: R_def post_processed_agent_data_def)
  next
    case (Inr d')
    then have eq: "R dumps broken fault during body db subs
      = create_processed_agent_data dumps broken fault during d' db subs"
      by (simp add: R_def validate_body_ok_create)
    from ne create_sent_committed [of dumps broken fault during d' db subs] Inr show ?thesis
      unfolding eq by simp
  qed
qed

theorem broadcast_only_after_commit_witness:
  "validate_body (\<lambda>x. x) [Inl ''timestamp''] = Inl ''timestamp''
   \<and> response (post_processed_agent_data (\<lambda>x. x) json_dumps {} None [] [Inl ''timestamp''] example_db [1])
       = Inl (RequestValidationError ''timestamp'')
   \<and> sent (post_processed_agent_data (\<lambda>x. x) json_dumps {} None [] [Inl ''timestamp''] example_db [1]) = []
   \<and> validate_body (\<lambda>x. x) [Inr example_unit] = Inr [example_unit]
   \<and> sent (post_processed_agent_data (\<lambda>x. x) json_dumps {} (Some 1) [] [Inr example_unit] example_db [1]) = []
   \<and> processed_agent_data (db_after
        (post_processed_agent_data (\<lambda>x. x) json_dumps {} (Some 1) [] [Inr example_unit] example_db [1]))
       = [example_row]
   \<and> sent (post_processed_agent_data (\<lambda>x. x) json_dumps {} None [] [] example_db [1]) = [(1, ''[]'')]
   \<and> processed_agent_data (db_after
        (post_processed_agent_data (\<lambda>x. x) json_dumps {} None [] [] example_db [1]))
       = [example_row]"
proof -
  have v1: "validate_body (\<lambda>x. x) [Inl ''timestamp''] = (Inl ''timestamp'' :: string + ProcessedAgentData list)"
    by simp
  have v2: "validate_body (\<lambda>x. x) [Inr example_unit] = (Inr [example_unit] :: string + ProcessedAgentData list)"
    by simp
  have v3: "validate_body (\<lambda>x. x) [] = (Inr [] :: string + ProcessedAgentData list)"
    by simp
  have s3: "sent (post_processed_agent_data (\<lambda>x. x) json_dumps {} None [] [] example_db [1]) = [(1, ''[]'')]"
    by (simp add: post_processed_agent_data_def create_processed_agent_data_def json_dumps_def
        send_data_to_subscribers_def iterate_subscriptions.simps)
  from broadcast_only_after_commit
    [of "\<lambda>x. x" "[Inl ''timestamp'']" "''timestamp''" json_dumps "{}" None "[]" example_db "[1]"] v1
  have a: "response (post_processed_agent_data (\<lambda>x. x) json_dumps {} None [] [Inl ''timestamp''] example_db [1])
       = Inl (RequestValidationError ''timestamp'')
     \<and> sent (post_processed_agent_data (\<lambda>x. x) json_dumps {} None [] [Inl ''timestamp''] example_db [1]) = []"
    by simp
  from broadcast_only_after_commit
    [of "\<lambda>x. x" "[Inr example_unit]" _ json_dumps "{}" "Some 1" "[]" example_db "[1]" "[example_unit]" 1] v2
  have b: "sent (post_processed_agent_data (\<lambda>x. x) json_dumps {} (Some 1) [] [Inr example_unit] example_db [1]) = []
     \<and> processed_agent_data (db_after
        (post_processed_agent_data (\<lambda>x. x) json_dumps {} (Some 1) [] [Inr example_unit] example_db [1]))
       = processed_agent_data example_db"
    by simp
  from broadcast_only_after_commit
    [of "\<lambda>x. x" "[]" _ json_dumps "{}" None "[]" example_db "[1]"] v3 s3
  have c: "processed_agent_data (db_after
        (post_processed_agent_data (\<lambda>x. x) json_dumps {} None [] [] example_db [1]))
       = processed_agent_data example_db @ new_rows (id_seq example_db) []"
    by simp
  from a b c v1 v2 s3 show ?thesis
    by (simp add: example_db_def)
qed

section \<open>A failing send\<close>

text \<open>
  Claim C1, as the code has it. The loop has no handler around \<open>send_json\<close>. On a
  healthy store, with a payload that serialises, and when no websocket connects or
  disconnects before the broadcast ends: when the websocket \<open>w\<close> is the first in
  iteration order whose send raises, the websockets before it have got the payload,
  \<open>w\<close> and those after it get nothing, \<open>w\<close> stays in the registry, and the exception
  leaves the handler, so the create request is answered with a server error although the
  batch is committed. When no send raises, every websocket of the registry gets the
  payload once, in order, and the request succeeds.
\<close>

theorem send_failure_ends_broadcast:
  assumes "wf_db db" and "dumps d = Inr payload"
  shows "(set pre \<inter> broken = {} \<and> w \<in> broken \<and> undisturbed (take (Suc (length pre)) during) \<longrightarrow>
            response (create_processed_agent_data dumps broken None during d db (pre @ w # post))
              = Inl (InternalServerError WebSocketSendError)
          \<and> failure_status (InternalServerError WebSocketSendError) = 500
          \<and> sent (create_processed_agent_data dumps broken None during d db (pre @ w # post))
              = map (\<lambda>v. (v, payload)) pre
          \<and> subscriptions_after
               (create_processed_agent_data dumps broken None during d db (pre @ w # post))
              = pre @ w # post
          \<and> processed_agent_data
              (db_after (create_processed_agent_data dumps broken None during d db (pre @ w # post)))
              = processed_agent_data db @ new_rows (id_seq db) d)
       \<and> (set subs \<inter> broken = {} \<and> undisturbed (take (length subs) during) \<longrightarrow>
            response (create_processed_agent_data dumps broken None during d db subs) = Inr ()
          \<and> sent (create_processed_agent_data dumps broken None during d db subs)
              = map (\<lambda>v. (v, payload)) subs
          \<and> subscriptions_after (create_processed_agent_data dumps broken None during d db subs)
              = subs)"
proof -
  from assms(1) have inv: "\<forall>r \<in> set (processed_agent_data db). db_id r < id_seq db"
    by (simp add: wf_db_def)
  have fl: "\<forall>j. (None :: db_fault) = Some j \<longrightarrow> j < 0 \<or> 0 + length d \<le> j" by simp
  note iu = insert_units_healthy [OF inv fl]
  show ?thesis
  proof (intro conjI impI)
    let ?subs = "pre @ w # post"
    assume a: "set pre \<inter> broken = {} \<and> w \<in> broken \<and> undisturbed (take (Suc (length pre)) during)"
    then have al: "set pre \<inter> broken = {}" and wb: "w \<in> broken"
      and un: "undisturbed (take (Suc (length pre)) during)" by simp_all
    have len: "length ?subs = length ?subs" by simp
    have lp: "send_data_to_subscribers dumps broken d during ?subs
           = (Some WebSocketSendError, map (\<lambda>v. (v, payload)) pre, ?subs)"
      unfolding send_data_to_subscribers_def
      by (rule iterate_send_fails [where dumps = dumps and d = d, OF assms(2) len wb al un])
    show "response (create_processed_agent_data dumps broken None during d db ?subs)
              = Inl (InternalServerError WebSocketSendError)"
      "sent (create_processed_agent_data dumps broken None during d db ?subs)
              = map (\<lambda>v. (v, payload)) pre"
      "subscriptions_after (create_processed_agent_data dumps broken None during d db ?subs)
              = ?subs"
      "processed_agent_data
              (db_after (create_processed_agent_data dumps broken None during d db ?subs))
              = processed_agent_data db @ new_rows (id_seq db) d"
      by (simp_all add: create_processed_agent_data_def iu lp)
    show "failure_status (InternalServerError WebSocketSendError) = 500" by simp
  next
    assume a: "set subs \<inter> broken = {} \<and> undisturbed (take (length subs) during)"
    then have al: "set subs \<inter> broken = {}" and un: "undisturbed (take (length subs) during)"
      by simp_all
    have len: "length subs = length subs" by simp
    have lp: "send_data_to_subscribers dumps broken d during subs
        = (None, map (\<lambda>v. (v, payload)) subs, subs)"
      unfolding send_data_to_subscribers_def
      by (rule iterate_all_served [where dumps = dumps and d = d, OF assms(2) len un al])
    show "response (create_processed_agent_data dumps broken None during d db subs) = Inr ()"
      "sent (create_processed_agent_data dumps broken None during d db subs)
         = map (\<lambda>v. (v, payload)) subs"
      "subscriptions_after (create_processed_agent_data dumps broken None during d db subs) = subs"
      by (simp_all add: create_processed_agent_data_def iu lp)
  qed
qed

theorem send_failure_ends_broadcast_witness:
  "wf_db example_db \<and> json_dumps [] = Inr ''[]''
   \<and> undisturbed [[Received 1 (Text ''ping'')], []]
   \<and> response (create_processed_agent_data json_dumps {2} None [[Received 1 (Text ''ping'')], []] []
        example_db ([1] @ 2 # [3]))
       = Inl (InternalServerError WebSocketSendError)
   \<and> sent (create_processed_agent_data json_dumps {2} None [[Received 1 (Text ''ping'')], []] []
        example_db ([1] @ 2 # [3]))
       = [(1, ''[]'')]
   \<and> subscriptions_after (create_processed_agent_data json_dumps {2} None
        [[Received 1 (Text ''ping'')], []] [] example_db ([1] @ 2 # [3]))
       = [1, 2, 3]
   \<and> response (create_processed_agent_data json_dumps {2} None [[Received 1 (Text ''ping'')], []] []
        example_db [1, 3]) = Inr ()
   \<and> sent (create_processed_agent_data json_dumps {2} None [[Received 1 (Text ''ping'')], []] []
        example_db [1, 3])
       = [(1, ''[]''), (3, ''[]'')]"
proof -
  have wf: "wf_db example_db"
    by (simp add: wf_db_def example_db_def example_row_def)
  have js: "json_dumps [] = Inr ''[]''" by (simp add: json_dumps_def)
  have un: "undisturbed [[Received 1 (Text ''ping'')], []]" by (simp add: undisturbed_def)
  have h1: "set [1::nat] \<inter> {2} = {} \<and> (2::nat) \<in> {2}
      \<and> undisturbed (take (Suc (length [1::nat])) [[Received 1 (Text ''ping'')], []])"
    by (simp add: undisturbed_def)
  have h2: "set [1::nat, 3] \<inter> {2} = {}
      \<and> undisturbed (take (length [1::nat, 3]) [[Received 1 (Text ''ping'')], []])"
    by (simp add: undisturbed_def)
  from send_failure_ends_broadcast
    [of example_db json_dumps "[]" "''[]''" "[1]" "{2}" 2 "[[Received 1 (Text ''ping'')], []]"
        "[3]" "[1, 3]"] h1 h2 wf js un
  show ?thesis by simp
qed

text \<open>
  The claim as the specification states it fails: with two subscribers and the empty
  batch, a failing send to the first one leaves the second without its message, keeps
  the first in the registry and turns the answer into a server error, where the same
  request with both sends working serves both and succeeds.
\<close>

theorem send_failure_is_not_isolated:
  "response (create_processed_agent_data json_dumps {1} None [] [] example_db [1, 2])
     = Inl (InternalServerError WebSocketSendError)
   \<and> sent (create_processed_agent_data json_dumps {1} None [] [] example_db [1, 2]) = []
   \<and> subscriptions_after (create_processed_agent_data json_dumps {1} None [] [] example_db [1, 2])
       = [1, 2]
   \<and> response (create_processed_agent_data json_dumps {} None [] [] example_db [1, 2]) = Inr ()
   \<and> sent (create_processed_agent_data json_dumps {} None [] [] example_db [1, 2])
       = [(1, ''[]''), (2, ''[]'')]"
  by (simp add: create_processed_agent_data_def json_dumps_def send_data_to_subscribers_def
      iterate_subscriptions.simps)

text \<open>
  With \<open>json.dumps\<close> as the standard library has it, a batch that is not empty does not
  serialise: as soon as one subscriber is registered, the request is answered with a
  server error after its commit and nothing is sent.
\<close>

lemma create_unserialisable_batch:
  assumes "wf_db db" and "d \<noteq> []" and "subs \<noteq> []"
  shows "response (create_processed_agent_data json_dumps broken None during d db subs)
           = Inl (InternalServerError TypeError)
       \<and> sent (create_processed_agent_data json_dumps broken None during d db subs) = []
       \<and> processed_agent_data
            (db_after (create_processed_agent_data json_dumps broken None during d db subs))
           = processed_agent_data db @ new_rows (id_seq db) d"
proof -
  from assms(1) have inv: "\<forall>r \<in> set (processed_agent_data db). db_id r < id_seq db"
    by (simp add: wf_db_def)
  have fl: "\<forall>j. (None :: db_fault) = Some j \<longrightarrow> j < 0 \<or> 0 + length d \<le> j" by simp
  have js: "json_dumps d = Inl TypeError" using assms(2) by (simp add: json_dumps_def)
  have "send_data_to_subscribers json_dumps broken d during subs = (Some TypeError, [], subs)"
    unfolding send_data_to_subscribers_def
    by (rule iterate_dumps_fails [where dumps = json_dumps and d = d, OF js assms(3)]) simp
  then show ?thesis
    by (simp add: create_processed_agent_data_def insert_units_healthy [OF inv fl])
qed

section \<open>The registry over subscriber lifetimes\<close>

lemma set_subscriptions_add: "set (subscriptions_add w subs) = insert w (set subs)"
  by (auto simp: subscriptions_add_def)

lemma distinct_subscriptions_add: "distinct subs \<Longrightarrow> distinct (subscriptions_add w subs)"
  by (simp add: subscriptions_add_def)

lemma subscriptions_remove_member:
  "w \<in> set subs \<Longrightarrow> subscriptions_remove w subs = Inr (removeAll w subs)"
  by (simp add: subscriptions_remove_def)

lemma subscriptions_remove_absent:
  "w \<notin> set subs \<Longrightarrow> subscriptions_remove w subs = Inl KeyError"
  by (simp add: subscriptions_remove_def)

lemma run_endpoints_append:
  "run_endpoints (es1 @ es2) subs =
     (case run_endpoints es1 subs of Inl x \<Rightarrow> Inl x | Inr s \<Rightarrow> run_endpoints es2 s)"
  by (induction es1 arbitrary: subs) (auto split: sum.splits)

lemma lifetimes_run:
  "lifetimes opn cls es \<Longrightarrow> set opn \<subseteq> set subs \<Longrightarrow> \<exists>s. run_endpoints es subs = Inr s"
proof (induction opn cls es arbitrary: subs rule: lifetimes.induct)
  case (1 opn cls)
  then show ?case by simp
next
  case (2 opn cls w es)
  from "2.prems" have "lifetimes (w # opn) cls es" "set (w # opn) \<subseteq> set (subscriptions_add w subs)"
    by (auto simp: set_subscriptions_add)
  from "2.IH" [OF this] show ?case by simp
next
  case (3 opn cls w uu es)
  then show ?case by simp
next
  case (4 opn cls w es)
  from "4.prems" have w: "w \<in> set subs" by auto
  from "4.prems" have "lifetimes (removeAll w opn) (w # cls) es"
    "set (removeAll w opn) \<subseteq> set (removeAll w subs)" by auto
  from "4.IH" [OF this] w show ?case by (simp add: subscriptions_remove_member)
next
  case (5 opn cls w es)
  from "5.prems" have "lifetimes (removeAll w opn) (w # cls) es"
    "set (removeAll w opn) \<subseteq> set subs" by auto
  from "5.IH" [OF this] show ?case by simp
qed

lemma lifetimes_prefix:
  "lifetimes opn cls (es1 @ es2) \<Longrightarrow> set opn \<subseteq> set subs \<Longrightarrow>
     \<exists>opn' cls' s. run_endpoints es1 subs = Inr s \<and> lifetimes opn' cls' es2 \<and> set opn' \<subseteq> set s"
proof (induction opn cls es1 arbitrary: subs rule: lifetimes.induct)
  case (1 opn cls)
  then show ?case by auto
next
  case (2 opn cls w es)
  from "2.prems" have "lifetimes (w # opn) cls (es @ es2)"
    "set (w # opn) \<subseteq> set (subscriptions_add w subs)"
    by (auto simp: set_subscriptions_add)
  from "2.IH" [OF this] show ?case by simp
next
  case (3 opn cls w uu es)
  then show ?case by simp
next
  case (4 opn cls w es)
  from "4.prems" have w: "w \<in> set subs" by auto
  from "4.prems" have "lifetimes (removeAll w opn) (w # cls) (es @ es2)"
    "set (removeAll w opn) \<subseteq> set (removeAll w subs)" by auto
  from "4.IH" [OF this] w show ?case by (simp add: subscriptions_remove_member)
next
  case (5 opn cls w es)
  from "5.prems" have "lifetimes (removeAll w opn) (w # cls) (es @ es2)"
    "set (removeAll w opn) \<subseteq> set subs" by auto
  from "5.IH" [OF this] show ?case by simp
qed

lemma closed_stays_out:
  "lifetimes opn cls es \<Longrightarrow> w \<in> set cls \<Longrightarrow> w \<notin> set subs \<Longrightarrow>
     run_endpoints es subs = Inr s \<Longrightarrow> w \<notin> set s"
proof (induction opn cls es arbitrary: subs rule: lifetimes.induct)
  case (1 opn cls)
  then show ?case by simp
next
  case (2 opn cls v es)
  from "2.prems" have "v \<noteq> w" by auto
  with "2.prems" have "lifetimes (v # opn) cls es" "w \<in> set cls"
    "w \<notin> set (subscriptions_add v subs)" "run_endpoints es (subscriptions_add v subs) = Inr s"
    by (auto simp: set_subscriptions_add)
  from "2.IH" [OF this] show ?case .
next
  case (3 opn cls v uu es)
  then show ?case by simp
next
  case (4 opn cls v es)
  from "4.prems" obtain s1 where s1: "subscriptions_remove v subs = Inr s1"
    "run_endpoints es s1 = Inr s"
    by (auto split: sum.splits)
  then have "set s1 \<subseteq> set subs" by (auto simp: subscriptions_remove_def split: if_splits)
  with "4.prems" s1 have "lifetimes (removeAll v opn) (v # cls) es" "w \<in> set (v # cls)"
    "w \<notin> set s1" by auto
  from "4.IH" [OF this s1(2)] show ?case .
next
  case (5 opn cls v es)
  from "5.prems" have "lifetimes (removeAll v opn) (v # cls) es" "w \<in> set (v # cls)"
    "w \<notin> set subs" "run_endpoints es subs = Inr s" by auto
  from "5.IH" [OF this] show ?case .
qed

text \<open>
  Claim C5, as the code has it. The only removal is the one in the endpoint's handler
  of \<open>WebSocketDisconnect\<close>, and it is \<open>set.remove\<close>. Over any run of subscriber
  lifetimes that starts with an empty registry, when the websocket \<open>w\<close> disconnects its
  handle is in the registry, the removal does not raise and takes it out, no later step
  of the run raises or brings it back, so it is released once; a removal of \<open>w\<close> after
  that raises \<open>KeyError\<close>.
\<close>

lemma lifetimes_no_removal_raises:
  "lifetimes [] [] es \<Longrightarrow> \<exists>s. run_endpoints es [] = Inr s"
  by (rule lifetimes_run) simp_all

text \<open>
  Claim C5, as the code has it. The only removal is the one in the endpoint's handler
  of \<open>WebSocketDisconnect\<close>, and it removes the websocket that this endpoint added. Over
  any run of subscriber lifetimes that starts with an empty registry no step raises: the
  program never removes a websocket that is not in the registry. For every lifetime
  that ends with a disconnect, the websocket is in the registry when it disconnects,
  the removal takes it out, and no later step of the run brings it back: it is released
  exactly once.
\<close>

theorem release_once_on_disconnect:
  assumes "lifetimes [] [] es"
  shows "(\<exists>s. run_endpoints es [] = Inr s)
       \<and> (es = es1 @ Received w Disconnect # es2 \<longrightarrow>
            (\<exists>s1 s2. run_endpoints es1 [] = Inr s1 \<and> w \<in> set s1
               \<and> endpoint_step (Received w Disconnect) s1 = Inr (removeAll w s1)
               \<and> run_endpoints es2 (removeAll w s1) = Inr s2 \<and> w \<notin> set s2
               \<and> run_endpoints es [] = Inr s2))"
proof (intro conjI impI)
  show "\<exists>s. run_endpoints es [] = Inr s"
    by (rule lifetimes_no_removal_raises [OF assms])
next
  assume es: "es = es1 @ Received w Disconnect # es2"
  from assms have lt0: "lifetimes [] [] (es1 @ Received w Disconnect # es2)"
    unfolding es .
  from lifetimes_prefix [OF lt0, of "[]"] obtain opn cls s1 where
    r1: "run_endpoints es1 [] = Inr s1" and
    lt: "lifetimes opn cls (Received w Disconnect # es2)" and sub: "set opn \<subseteq> set s1"
    by auto
  from lt sub have w: "w \<in> set s1" and lt2: "lifetimes (removeAll w opn) (w # cls) es2"
    by auto
  from sub have sub2: "set (removeAll w opn) \<subseteq> set (removeAll w s1)" by auto
  from lifetimes_run [OF lt2 sub2] obtain s2 where
    r2: "run_endpoints es2 (removeAll w s1) = Inr s2" by auto
  have out: "w \<notin> set s2"
    by (rule closed_stays_out [OF lt2 _ _ r2]) simp_all
  from r1 w r2 out show "\<exists>s1 s2. run_endpoints es1 [] = Inr s1 \<and> w \<in> set s1
               \<and> endpoint_step (Received w Disconnect) s1 = Inr (removeAll w s1)
               \<and> run_endpoints es2 (removeAll w s1) = Inr s2 \<and> w \<notin> set s2
               \<and> run_endpoints es [] = Inr s2"
    unfolding es by (simp add: run_endpoints_append subscriptions_remove_member)
qed

theorem release_once_on_disconnect_witness:
  "lifetimes [] [] ([Accepted 1, Accepted 2, Received 1 (Text ''ping'')] @ Received 1 Disconnect # [Accepted 3])
   \<and> run_endpoints [Accepted 1, Accepted 2, Received 1 (Text ''ping'')] [] = Inr [1, 2]
   \<and> run_endpoints ([Accepted 1, Accepted 2, Received 1 (Text ''ping'')] @ Received 1 Disconnect # [Accepted 3]) []
       = Inr [2, 3]"
proof -
  let ?es1 = "[Accepted 1, Accepted 2, Received 1 (Text ''ping'')]"
  let ?es = "?es1 @ Received 1 Disconnect # [Accepted 3]"
  have lt: "lifetimes [] [] ?es"
    by simp
  have r1: "run_endpoints ?es1 [] = Inr [1, 2]"
    by (simp add: subscriptions_add_def)
  from release_once_on_disconnect [OF lt, of ?es1 1 "[Accepted 3]"] obtain s1 s2 where
    a: "run_endpoints ?es1 [] = Inr s1" and
    b: "run_endpoints [Accepted 3] (removeAll 1 s1) = Inr s2" and
    c: "run_endpoints ?es [] = Inr s2"
    by blast
  from a r1 have s1: "s1 = [1, 2]" by simp
  from b have s2: "s2 = [2, 3]" unfolding s1 by (simp add: subscriptions_add_def)
  from lt r1 c show ?thesis unfolding s2 by blast
qed

text \<open>
  The claim as the specification states it fails: a subscriber whose \<open>receive_text\<close>
  ends with an exception other than \<open>WebSocketDisconnect\<close> has had its lifetime, and its
  websocket is still in the registry: it was released not once but never.
\<close>

theorem lifetime_without_release:
  "lifetimes [] [] [Accepted 1, Received 1 ReceiveError]
   \<and> run_endpoints [Accepted 1, Received 1 ReceiveError] [] = Inr [1]
   \<and> lifetimes [] [] [Accepted 1, Received 1 Disconnect]
   \<and> run_endpoints [Accepted 1, Received 1 Disconnect] [] = Inr []"
  by (simp add: subscriptions_add_def subscriptions_remove_def)

section \<open>Iterating the live set\<close>

text \<open>
  Claim C4, as the code has it. The registry has no lock and the broadcast takes no
  copy of it: the loop iterates the set itself. An add or a remove is one step between
  the awaits of the other flows: it acts on the current membership, an add puts the
  websocket in once, a remove of a member takes it out. When no websocket connects or
  disconnects during a broadcast, the payload serialises and no send raises, every
  member is sent the payload once, in iteration order, and the registry is left as it
  was. Wherever the loop stands, when the steps that run during a send that succeeds
  leave the set with another size than it had when the loop began, the iteration raises
  \<open>RuntimeError\<close> at its next step: the websocket of that send has the payload, and no
  websocket after it is served.
\<close>

theorem broadcast_iterates_live_set:
  assumes "dumps d = Inr payload"
  shows "set (subscriptions_add w subs) = insert w (set subs)
       \<and> (distinct subs \<longrightarrow> distinct (subscriptions_add w subs))
       \<and> (w \<in> set subs \<longrightarrow> subscriptions_remove w subs = Inr (removeAll w subs))
       \<and> (undisturbed (take (length subs) during) \<and> set subs \<inter> broken = {} \<longrightarrow>
            send_data_to_subscribers dumps broken d during subs
              = (None, map (\<lambda>u. (u, payload)) subs, subs))
       \<and> (length subs = size0 \<and> v \<notin> broken
            \<and> length (fst (steps_during_send es (subs, rest))) \<noteq> size0 \<longrightarrow>
            iterate_subscriptions dumps broken d (es # later) size0 (v # rest) subs
              = (Some RuntimeError, [(v, payload)], fst (steps_during_send es (subs, rest))))"
proof (intro conjI impI)
  show "set (subscriptions_add w subs) = insert w (set subs)"
    by (rule set_subscriptions_add)
  show "distinct (subscriptions_add w subs)" if "distinct subs"
    using that by (rule distinct_subscriptions_add)
  show "subscriptions_remove w subs = Inr (removeAll w subs)" if "w \<in> set subs"
    using that by (rule subscriptions_remove_member)
next
  assume a: "undisturbed (take (length subs) during) \<and> set subs \<inter> broken = {}"
  then have un: "undisturbed (take (length subs) during)" and al: "set subs \<inter> broken = {}"
    by simp_all
  have len: "length subs = length subs" by simp
  show "send_data_to_subscribers dumps broken d during subs
              = (None, map (\<lambda>u. (u, payload)) subs, subs)"
    unfolding send_data_to_subscribers_def
    by (rule iterate_all_served [where dumps = dumps and d = d, OF assms len un al])
next
  assume a: "length subs = size0 \<and> v \<notin> broken
            \<and> length (fst (steps_during_send es (subs, rest))) \<noteq> size0"
  obtain subs' rest' where st: "steps_during_send es (subs, rest) = (subs', rest')"
    by (cases "steps_during_send es (subs, rest)")
  from a st have len: "length subs = size0" and vb: "v \<notin> broken"
    and ch: "length subs' \<noteq> size0" by simp_all
  from iterate_size_change_during_send
    [where dumps = dumps and d = d, OF assms len vb st ch, of later] st
  show "iterate_subscriptions dumps broken d (es # later) size0 (v # rest) subs
              = (Some RuntimeError, [(v, payload)], fst (steps_during_send es (subs, rest)))"
    by simp
qed

theorem broadcast_iterates_live_set_witness:
  "json_dumps [] = Inr ''[]''
   \<and> subscriptions_remove 1 [1, 2] = Inr [2]
   \<and> distinct (subscriptions_add 3 [1, 2])
   \<and> undisturbed [[Received 2 (Text ''ping'')]]
   \<and> send_data_to_subscribers json_dumps {} [] [[Received 2 (Text ''ping'')]] [1, 2]
       = (None, [(1, ''[]''), (2, ''[]'')], [1, 2])
   \<and> length (fst (steps_during_send [Accepted 4] ([1, 2, 3], [3]))) \<noteq> 3
   \<and> iterate_subscriptions json_dumps {} [] ([Accepted 4] # []) 3 (2 # [3]) [1, 2, 3]
       = (Some RuntimeError, [(2, ''[]'')], [1, 2, 3, 4])"
proof -
  have js: "json_dumps [] = Inr ''[]''" by (simp add: json_dumps_def)
  have un: "undisturbed [[Received 2 (Text ''ping'')]]" by (simp add: undisturbed_def)
  have m: "(1::nat) \<in> set [1, 2]" and ds: "distinct [1::nat, 2]" by simp_all
  have st: "steps_during_send [Accepted 4] ([1, 2, 3], [3]) = ([1, 2, 3, 4], [3, 4])"
    by simp
  have h1: "undisturbed (take (length [1::nat, 2]) [[Received 2 (Text ''ping'')]])
      \<and> set [1::nat, 2] \<inter> {} = {}"
    using un by simp
  have h2: "length [1::nat, 2, 3] = 3 \<and> (2::nat) \<notin> {}
      \<and> length (fst (steps_during_send [Accepted 4] ([1, 2, 3], [3]))) \<noteq> 3"
    by (simp add: st)
  from broadcast_iterates_live_set
    [of json_dumps "[]" "''[]''" 1 "[1, 2]" "[[Received 2 (Text ''ping'')]]" "{}"] js m h1
  have a: "subscriptions_remove 1 [1, 2] = Inr [2]
     \<and> send_data_to_subscribers json_dumps {} [] [[Received 2 (Text ''ping'')]] [1, 2]
         = (None, [(1, ''[]''), (2, ''[]'')], [1, 2])"
    by simp
  from broadcast_iterates_live_set [of json_dumps "[]" "''[]''" 3 "[1, 2]"] js ds
  have b: "distinct (subscriptions_add 3 [1, 2])" by simp
  from broadcast_iterates_live_set
    [of json_dumps "[]" "''[]''" _ "[1, 2, 3]" _ "{}" 3 2 "[Accepted 4]" "[3]" "[]"] js h2
  have c: "iterate_subscriptions json_dumps {} [] ([Accepted 4] # []) 3 (2 # [3]) [1, 2, 3]
       = (Some RuntimeError, [(2, ''[]'')], [1, 2, 3, 4])"
    by (simp add: st)
  from js a b c un h2 show ?thesis by simp
qed

text \<open>
  The claim as the specification states it fails: a subscriber accepted while the
  broadcast waits in its first send ends the broadcast with \<open>RuntimeError\<close> before the
  second subscriber is served; a loop over a copy would have served both, as the loop
  does when no websocket connects or disconnects.
\<close>

theorem connect_during_broadcast_raises:
  "send_data_to_subscribers json_dumps {} [] [[Accepted 3]] [1, 2]
     = (Some RuntimeError, [(1, ''[]'')], [1, 2, 3])
   \<and> send_data_to_subscribers json_dumps {} [] [] [1, 2]
     = (None, [(1, ''[]''), (2, ''[]'')], [1, 2])
   \<and> response (create_processed_agent_data json_dumps {} None [[Accepted 3]] [] example_db [1, 2])
     = Inl (InternalServerError RuntimeError)"
  by (simp add: send_data_to_subscribers_def json_dumps_def iterate_subscriptions.simps
      create_processed_agent_data_def)

section \<open>The client adapter\<close>

text \<open>
  Claim C9, as the code has it. \<open>save_data\<close> sends one request, whatever the answer: a
  POST to the base address followed by \<open>/processed_agent_data\<close> whose body is \<open>[\<close>, the
  serialised records of the batch separated by commas, and \<open>]\<close>. When the store answers,
  the result is \<open>True\<close> exactly when the status is 200 (\<open>requests.codes.ok\<close>) and \<open>False\<close> for
  every other status, the other success statuses such as 201 and 204 among them; the
  body of the answer has no part in it, so two answers with the same status give the
  same result. An exception of the transport leaves \<open>save_data\<close>.
\<close>

theorem save_data_one_post:
  fixes requests_post :: "http_request \<Rightarrow> exn + http_response"
  defines "request \<equiv> (\<lambda>base (parts :: string list).
     \<lparr>req_url = base @ ''/processed_agent_data'', req_data = ''['' @ join '','' parts @ '']''\<rparr>)"
  shows "fst (save_data base dump requests_post batch) = [request base (map dump batch)]
       \<and> (requests_post (request base (map dump batch)) = Inr resp \<longrightarrow>
            snd (save_data base dump requests_post batch) = Inr (resp_status_code resp = 200))
       \<and> (requests_post (request base (map dump batch)) = Inr resp
            \<and> requests_post' (request base (map dump batch)) = Inr resp'
            \<and> resp_status_code resp = resp_status_code resp' \<longrightarrow>
            save_data base dump requests_post batch = save_data base dump requests_post' batch)
       \<and> (requests_post (request base (map dump batch)) = Inl e \<longrightarrow>
            snd (save_data base dump requests_post batch) = Inl e)"
  by (simp add: save_data_def request_def Let_def split: sum.splits)

theorem save_data_one_post_witness:
  "save_data ''http://store:8000'' (\<lambda>n. if n = (0::nat) then ''{}'' else ''7'')
      (store_answers 200 ''null'') [0, 1]
     = ([\<lparr>req_url = ''http://store:8000/processed_agent_data'', req_data = ''[{},7]''\<rparr>],
        Inr True)
   \<and> save_data ''http://store:8000'' (\<lambda>n. if n = (0::nat) then ''{}'' else ''7'')
      (store_answers 422 ''null'') [0, 1]
     = ([\<lparr>req_url = ''http://store:8000/processed_agent_data'', req_data = ''[{},7]''\<rparr>],
        Inr False)"
proof -
  let ?dump = "\<lambda>n. if n = (0::nat) then ''{}'' else ''7''"
  let ?rq = "\<lparr>req_url = ''http://store:8000'' @ ''/processed_agent_data'',
              req_data = ''['' @ join '','' (map ?dump [0, 1]) @ '']''\<rparr>"
  have a: "store_answers 200 ''null'' ?rq = Inr \<lparr>resp_status_code = 200, resp_content = ''null''\<rparr>"
    by (simp add: store_answers_def)
  have b: "store_answers 422 ''null'' ?rq = Inr \<lparr>resp_status_code = 422, resp_content = ''null''\<rparr>"
    by (simp add: store_answers_def)
  from save_data_one_post [of "''http://store:8000''" ?dump "store_answers 200 ''null''" "[0, 1]"
      "\<lparr>resp_status_code = 200, resp_content = ''null''\<rparr>"] a
  have 1: "save_data ''http://store:8000'' ?dump (store_answers 200 ''null'') [0, 1] = ([?rq], Inr True)"
    by (simp add: prod_eq_iff)
  from save_data_one_post [of "''http://store:8000''" ?dump "store_answers 422 ''null''" "[0, 1]"
      "\<lparr>resp_status_code = 422, resp_content = ''null''\<rparr>"] b
  have 2: "save_data ''http://store:8000'' ?dump (store_answers 422 ''null'') [0, 1] = ([?rq], Inr False)"
    by (simp add: prod_eq_iff)
  from 1 2 show ?thesis by simp
qed

text \<open>
  The claim as the specification states it fails: the success statuses 201 and 204
  give \<open>False\<close>.
\<close>

theorem save_data_false_on_201:
  "snd (save_data ''http://store:8000'' id (store_answers 201 ''null'') [''{}'']) = Inr False
   \<and> snd (save_data ''http://store:8000'' id (store_answers 204 []) [''{}'']) = Inr False
   \<and> snd (save_data ''http://store:8000'' id (store_answers 200 ''null'') [''{}'']) = Inr True"
  by (simp add: save_data_def store_answers_def)

section \<open>The timestamp validator\<close>

text \<open>
  What \<open>check_timestamp\<close> does with a value it is given: a date-time passes, a string
  passes exactly when \<open>fromisoformat\<close> reads it, and everything else is refused with the
  message about the ISO 8601 format.
\<close>

lemma check_timestamp_cases:
  "check_timestamp fromisoformat (RawDatetime dt) = Inr dt
   \<and> (fromisoformat s = None \<longrightarrow> check_timestamp fromisoformat (RawStr s) = Inl timestamp_message)
   \<and> (fromisoformat s = Some dt' \<longrightarrow> check_timestamp fromisoformat (RawStr s) = Inr dt')
   \<and> check_timestamp fromisoformat RawOther = Inl timestamp_message"
  by (simp add: check_timestamp_def)

end
